theory Spec2Isabelle
  imports Main "HOL-Library.Sublist"
begin

section \<open>Template renderer of the send path\<close>

text \<open>
  The function \<open>replacePlaceholders\<close> of \<^verbatim>\<open>supabase/functions/send-bulk-emails/index.ts\<close>
  chains four calls of \<^verbatim>\<open>String.prototype.replace\<close> with a global regular expression
  that matches one literal token. A contact is the interface \<open>Contact\<close> of that file;
  its field \<open>id\<close> is called \<open>contact_id\<close> here.
\<close>

record Contact =
  contact_id :: string
  email :: string
  first_name :: "string option"
  last_name :: "string option"
  company :: "string option"

text \<open>
  The replacement text of \<^verbatim>\<open>replace\<close> is not taken literally: ECMAScript's
  GetSubstitution expands \<^verbatim>\<open>$$\<close>, \<^verbatim>\<open>$&\<close>, \<^verbatim>\<open>$`\<close> and \<^verbatim>\<open>$'\<close> in it. The
  patterns here have no capture group, so \<^verbatim>\<open>$1\<close> and the like stay as they are.
  \<open>matched\<close> is the matched text, \<open>pre\<close> the subject before the match and \<open>post\<close>
  the subject after it.
\<close>

fun GetSubstitution :: "string \<Rightarrow> string \<Rightarrow> string \<Rightarrow> string \<Rightarrow> string" where
  "GetSubstitution matched pre post [] = []"
| "GetSubstitution matched pre post [c] = [c]"
| "GetSubstitution matched pre post (c # d # rest) =
     (if c = CHR ''$'' then
        (if d = CHR ''$'' then CHR ''$'' # GetSubstitution matched pre post rest
         else if d = CHR ''&'' then matched @ GetSubstitution matched pre post rest
         else if d = CHR 0x60 then pre @ GetSubstitution matched pre post rest
         else if d = CHR 0x27 then post @ GetSubstitution matched pre post rest
         else c # GetSubstitution matched pre post (d # rest))
      else c # GetSubstitution matched pre post (d # rest))"

text \<open>
  \<open>replace_from tok rep pre s\<close> scans the rest \<open>s\<close> of the subject from the left,
  \<open>pre\<close> being the part already scanned. Matches of the literal \<open>tok\<close> do not
  overlap: the scan goes on behind each match.
\<close>

function replace_from :: "string \<Rightarrow> string \<Rightarrow> string \<Rightarrow> string \<Rightarrow> string" where
  "replace_from tok rep pre [] = []"
| "replace_from tok rep pre (x # xs) =
     (if tok \<noteq> [] \<and> prefix tok (x # xs)
      then GetSubstitution tok pre (drop (length tok) (x # xs)) rep
           @ replace_from tok rep (pre @ tok) (drop (length tok) (x # xs))
      else x # replace_from tok rep (pre @ [x]) xs)"
  by pat_completeness auto
termination
  by (relation "measure (\<lambda>(tok, rep, pre, s). length s)") auto

text \<open>\<open>replace_g tok rep s\<close> is \<^verbatim>\<open>s.replace(/tok/g, rep)\<close> for a literal token.\<close>

definition replace_g :: "string \<Rightarrow> string \<Rightarrow> string \<Rightarrow> string" where
  "replace_g tok rep s = replace_from tok rep [] s"

text \<open>\<^verbatim>\<open>v || ""\<close> on a nullable string.\<close>

definition or_empty :: "string option \<Rightarrow> string" where
  "or_empty v = (case v of None \<Rightarrow> [] | Some s \<Rightarrow> s)"

definition replacePlaceholders :: "string \<Rightarrow> Contact \<Rightarrow> string" where
  "replacePlaceholders text contact =
     replace_g ''{{company}}'' (or_empty (company contact))
       (replace_g ''{{email}}'' (email contact)
         (replace_g ''{{last_name}}'' (or_empty (last_name contact))
           (replace_g ''{{first_name}}'' (or_empty (first_name contact)) text)))"

section \<open>The relational store\<close>

text \<open>
  The tables of the migrations, with the columns the dispatch handler reads or writes.
  A row of \<open>campaigns\<close> carries the joined template (\<^verbatim>\<open>select("*, email_templates(*)")\<close>),
  which is null when \<open>template_id\<close> is null. A row of \<open>campaign_recipients\<close> carries
  the joined contact (\<^verbatim>\<open>select("*, contacts(*)")\<close>); \<open>contact_id\<close> is a NOT NULL
  foreign key with cascading delete, so that join always finds its contact.
  The column \<open>id\<close> is \<open>camp_id\<close> for a campaign and \<open>recipient_id\<close> for a recipient row;
  the column \<open>status\<close> of a recipient row is \<open>recipient_status\<close>.
\<close>

datatype campaign_status = Draft | Scheduled | Sending | Paused | Completed | Failed

datatype recipient_status = Pending | Sent | SendFailed | Opened | Clicked | Bounced

record email_template =
  subject :: string
  html_content :: string

record campaign =
  camp_id :: string
  email_templates :: "email_template option"
  status :: campaign_status
  total_recipients :: "int option"
  sent_count :: "int option"
  failed_count :: "int option"
  started_at :: "string option"
  completed_at :: "string option"
  updated_at :: string

record recipient =
  recipient_id :: string
  campaign_id :: string
  recipient_status :: recipient_status
  sent_at :: "string option"
  error_message :: "string option"
  contacts :: Contact

record smtp_setting =
  host :: string
  port :: int
  username :: string
  from_email :: string
  from_name :: string
  use_tls :: "bool option"

record store =
  campaigns :: "campaign list"
  smtp_settings :: "smtp_setting list"
  campaign_recipients :: "recipient list"

text \<open>\<^verbatim>\<open>.single()\<close>: the row when the query yields exactly one, an error otherwise.\<close>

definition single :: "'a list \<Rightarrow> 'a option" where
  "single rows = (case rows of [r] \<Rightarrow> Some r | _ \<Rightarrow> None)"

text \<open>
  \<^verbatim>\<open>from("campaigns").update(...).eq("id", cid)\<close>. The trigger
  \<open>update_campaigns_updated_at\<close> of the first migration stamps \<open>updated_at\<close> with the
  database clock \<open>t\<close> on every updated row.
\<close>

definition update_campaigns :: "(campaign \<Rightarrow> campaign) \<Rightarrow> string \<Rightarrow> string \<Rightarrow> store \<Rightarrow> store" where
  "update_campaigns f cid t st =
     st\<lparr>campaigns := map (\<lambda>c. if camp_id c = cid then (f c)\<lparr>updated_at := t\<rparr> else c) (campaigns st)\<rparr>"

text \<open>\<^verbatim>\<open>from("campaign_recipients").update(...).eq("id", rid)\<close>; this table has no trigger.\<close>

definition update_recipients :: "(recipient \<Rightarrow> recipient) \<Rightarrow> string \<Rightarrow> store \<Rightarrow> store" where
  "update_recipients f rid st =
     st\<lparr>campaign_recipients := map (\<lambda>r. if recipient_id r = rid then f r else r) (campaign_recipients st)\<rparr>"

text \<open>
  The pending rows of a campaign, in the order of the table (the query has no ORDER BY).
\<close>

definition pending_rows :: "string \<Rightarrow> store \<Rightarrow> recipient list" where
  "pending_rows cid st =
     filter (\<lambda>r. campaign_id r = cid \<and> recipient_status r = Pending) (campaign_recipients st)"

section \<open>The dispatch handler\<close>

text \<open>
  What the handler gets from outside: the reading \<open>now\<close> of the JavaScript clock and
  \<open>db_now\<close> of the database clock (one reading of each per invocation), the behaviour
  \<open>client_send\<close> of the SMTP client for the \<open>i\<close>-th recipient of the batch, and whether the
  query for the pending recipients comes back with an error. Every other query and
  every update is executed on the tables as written; creating and closing the SMTP
  client throw nothing, and the pause after a message changes nothing. Counters are
  unbounded integers.
\<close>

record connection =
  hostname :: string
  conn_port :: int
  tls :: "bool option"
  auth_username :: string
  auth_password :: string

record mail =
  mail_from :: string
  mail_to :: string
  mail_subject :: string
  mail_html :: string

datatype send_outcome = Delivered | ThrowsError string | ThrowsOther

record env =
  now :: string
  db_now :: string
  client_send :: "connection \<Rightarrow> nat \<Rightarrow> mail \<Rightarrow> send_outcome"
  recipients_error :: bool

text \<open>
  A request: its method and what \<^verbatim>\<open>await req.json()\<close> with the destructuring of line 33
  gives: an exception with a message, or the two fields (absent is \<open>None\<close>).
\<close>

datatype json_body = Malformed string | Parsed "string option" "string option"

record request =
  req_method :: string
  json :: json_body

datatype json_value = JStr string | JNum int | JBool bool

record response =
  http_status :: nat
  body :: "(string \<times> json_value) list option"

definition error_response :: "nat \<Rightarrow> string \<Rightarrow> response" where
  "error_response code msg = \<lparr>http_status = code, body = Some [(''error'', JStr msg)]\<rparr>"

definition ok_response :: "(string \<times> json_value) list \<Rightarrow> response" where
  "ok_response entries = \<lparr>http_status = 200, body = Some entries\<rparr>"

text \<open>\<^verbatim>\<open>!v\<close> on a string that may be absent.\<close>

definition falsy :: "string option \<Rightarrow> bool" where
  "falsy v = (case v of None \<Rightarrow> True | Some s \<Rightarrow> s = [])"

text \<open>\<^verbatim>\<open>v || d\<close> on a nullable timestamp and \<^verbatim>\<open>v || 0\<close> on a nullable counter.\<close>

definition or_else :: "string option \<Rightarrow> string \<Rightarrow> string" where
  "or_else v d = (case v of None \<Rightarrow> d | Some s \<Rightarrow> if s = [] then d else s)"

definition or_zero :: "int option \<Rightarrow> int" where
  "or_zero v = (case v of None \<Rightarrow> 0 | Some n \<Rightarrow> n)"

text \<open>
  The body of the inner \<^verbatim>\<open>try\<close> up to \<^verbatim>\<open>client.send\<close>. A null template makes
  \<^verbatim>\<open>template.subject\<close> throw a TypeError, which the inner \<^verbatim>\<open>catch\<close> receives like a
  delivery error.
\<close>

definition null_template_message :: string where
  "null_template_message =
     ''Cannot read properties of null (reading '' @ [CHR 0x27] @ ''subject'' @ [CHR 0x27] @ '')''"

definition attempt ::
  "env \<Rightarrow> connection \<Rightarrow> smtp_setting \<Rightarrow> email_template option \<Rightarrow> nat \<Rightarrow> recipient \<Rightarrow> send_outcome" where
  "attempt e conn smtpSettings template i r =
     (case template of
        None \<Rightarrow> ThrowsError null_template_message
      | Some t \<Rightarrow>
          client_send e conn i
            \<lparr>mail_from = from_name smtpSettings @ '' <'' @ from_email smtpSettings @ ''>'',
             mail_to = email (contacts r),
             mail_subject = replacePlaceholders (subject t) (contacts r),
             mail_html = replacePlaceholders (html_content t) (contacts r)\<rparr>)"

text \<open>
  \<^verbatim>\<open>err instanceof Error ? err.message : "Unknown error"\<close>, for what the inner \<^verbatim>\<open>try\<close>
  has thrown.
\<close>

definition errorMsg :: "send_outcome \<Rightarrow> string" where
  "errorMsg outcome = (case outcome of ThrowsError m \<Rightarrow> m | _ \<Rightarrow> ''Unknown error'')"

text \<open>
  The loop over the claimed recipients. The state is the store with the counters
  \<open>sentCount\<close> and \<open>failedCount\<close>; \<open>i\<close> counts the recipients already handled.
\<close>

fun process_batch ::
  "env \<Rightarrow> connection \<Rightarrow> smtp_setting \<Rightarrow> email_template option \<Rightarrow> nat \<Rightarrow> recipient list
     \<Rightarrow> store \<times> int \<times> int \<Rightarrow> store \<times> int \<times> int" where
  "process_batch e conn smtpSettings template i [] acc = acc"
| "process_batch e conn smtpSettings template i (r # rs) (st, sentCount, failedCount) =
     (case attempt e conn smtpSettings template i r of
        Delivered \<Rightarrow>
          process_batch e conn smtpSettings template (Suc i) rs
            (update_recipients (\<lambda>row. row\<lparr>recipient_status := Sent, sent_at := Some (now e)\<rparr>)
               (recipient_id r) st,
             sentCount + 1, failedCount)
      | outcome \<Rightarrow>
          process_batch e conn smtpSettings template (Suc i) rs
            (update_recipients
               (\<lambda>row. row\<lparr>recipient_status := SendFailed, error_message := Some (errorMsg outcome)\<rparr>)
               (recipient_id r) st,
             sentCount, failedCount + 1))"

text \<open>
  A counter of the campaign as lines 166 to 176 read it:
  \<^verbatim>\<open>currentCampaign?.sent_count || 0\<close> after \<^verbatim>\<open>select(...).eq("id", cid).single()\<close>.
\<close>

definition persisted :: "(campaign \<Rightarrow> int option) \<Rightarrow> string \<Rightarrow> store \<Rightarrow> int" where
  "persisted column cid st =
     (case single (filter (\<lambda>row. camp_id row = cid) (campaigns st)) of
        None \<Rightarrow> 0
      | Some row \<Rightarrow> or_zero (column row))"

text \<open>The configuration given to \<^verbatim>\<open>new SMTPClient\<close>.\<close>

definition smtp_connection :: "smtp_setting \<Rightarrow> string \<Rightarrow> connection" where
  "smtp_connection smtpSettings smtp_password =
     \<lparr>hostname = host smtpSettings, conn_port = port smtpSettings,
      tls = use_tls smtpSettings, auth_username = username smtpSettings,
      auth_password = smtp_password\<rparr>"

text \<open>
  The handler passed to \<^verbatim>\<open>serve\<close>, in three parts: \<open>serve\<close> is lines 24 to 40 and the
  outer \<^verbatim>\<open>catch\<close>, \<open>dispatch\<close> lines 42 to 96 and \<open>dispatch_batch\<close> lines 98 to 196.
  Each gives the response and the store it leaves.
\<close>

definition dispatch_batch ::
  "env \<Rightarrow> string \<Rightarrow> string \<Rightarrow> campaign \<Rightarrow> smtp_setting \<Rightarrow> recipient list \<Rightarrow> store \<Rightarrow> response \<times> store" where
  "dispatch_batch e cid smtp_password c smtpSettings recipients st =
     (let st1 = update_campaigns
                  (\<lambda>row. row\<lparr>status := Sending, started_at := Some (or_else (started_at c) (now e))\<rparr>)
                  cid (db_now e) st;
          conn = smtp_connection smtpSettings smtp_password;
          (st2, sentCount, failedCount) =
             process_batch e conn smtpSettings (email_templates c) 0 recipients (st1, 0, 0);
          st3 = update_campaigns
                  (\<lambda>row. row\<lparr>sent_count := Some (persisted sent_count cid st2 + sentCount),
                               failed_count := Some (persisted failed_count cid st2 + failedCount)\<rparr>)
                  cid (db_now e) st2;
          count = int (length (pending_rows cid st3))
      in (ok_response
            [(''success'', JBool True),
             (''sent'', JNum sentCount),
             (''failed'', JNum failedCount),
             (''remaining'', JNum count),
             (''message'', JStr (if count > 0 then ''Batch completed, more recipients pending''
                                  else ''All emails sent''))],
          st3))"

definition dispatch :: "env \<Rightarrow> string \<Rightarrow> string \<Rightarrow> store \<Rightarrow> response \<times> store" where
  "dispatch e cid smtp_password st =
     (case single (filter (\<lambda>row. camp_id row = cid) (campaigns st)) of
        None \<Rightarrow> (error_response 404 ''Campaign not found'', st)
      | Some c \<Rightarrow>
          (case smtp_settings st of
             [] \<Rightarrow> (error_response 400 ''SMTP settings not configured'', st)
           | smtpSettings # _ \<Rightarrow>
               if recipients_error e
               then (error_response 500 ''Failed to fetch recipients'', st)
               else
                 (let recipients = take 50 (pending_rows cid st) in
                  if recipients = []
                  then (ok_response
                          [(''success'', JBool True),
                           (''message'', JStr ''No pending recipients''),
                           (''sent'', JNum 0)],
                        update_campaigns
                          (\<lambda>row. row\<lparr>status := Completed, completed_at := Some (now e)\<rparr>)
                          cid (db_now e) st)
                  else dispatch_batch e cid smtp_password c smtpSettings recipients st)))"

definition serve :: "env \<Rightarrow> request \<Rightarrow> store \<Rightarrow> response \<times> store" where
  "serve e req st =
     (if req_method req = ''OPTIONS'' then (\<lparr>http_status = 200, body = None\<rparr>, st)
      else
        (case json req of
           Malformed msg \<Rightarrow> (error_response 500 msg, st)
         | Parsed campaign_id_field smtp_password_field \<Rightarrow>
             if falsy campaign_id_field \<or> falsy smtp_password_field
             then (error_response 400 ''Missing campaign_id or smtp_password'', st)
             else dispatch e (or_empty campaign_id_field) (or_empty smtp_password_field) st))"

section \<open>The deliverability check of the campaign wizard\<close>

text \<open>
  \<open>runDeliverabilityCheck\<close> of the campaign-creation page, as a function of the
  selected template (\<^verbatim>\<open>templates.find(...)\<close>, absent when none is selected), the number
  of recipients and the SMTP password typed in; it yields the list \<open>issues\<close>.
  \<open>toLowerCase\<close> and \<open>length\<close> are those of JavaScript on ASCII text.
\<close>

datatype issue_type = Warning | Error

record DeliverabilityIssue =
  issue_type :: issue_type
  message :: string

definition toLowerCase :: "string \<Rightarrow> string" where
  "toLowerCase s =
     map (\<lambda>c. let n = (of_char c :: nat) in if 65 \<le> n \<and> n \<le> 90 then char_of (n + 32) else c) s"

text \<open>\<^verbatim>\<open>s.includes(w)\<close>: \<open>w\<close> occurs in \<open>s\<close> as a contiguous substring.\<close>

fun includes_str :: "string \<Rightarrow> string \<Rightarrow> bool" where
  "includes_str [] w = (w = [])"
| "includes_str (x # xs) w = (prefix w (x # xs) \<or> includes_str xs w)"

text \<open>The decimal digits of a number, as a template literal prints it.\<close>

function show_nat :: "nat \<Rightarrow> string" where
  "show_nat n =
     (if n < 10 then [char_of (48 + n)] else show_nat (n div 10) @ [char_of (48 + n mod 10)])"
  by pat_completeness auto
termination
  by (relation "measure id") auto

definition spamWords :: "string list" where
  "spamWords = [''free'', ''winner'', ''click here'', ''act now'', ''limited time'', ''urgent'']"

definition runDeliverabilityCheck ::
  "email_template option \<Rightarrow> nat \<Rightarrow> string \<Rightarrow> DeliverabilityIssue list" where
  "runDeliverabilityCheck template recipientCount smtpPassword =
     (case template of
        None \<Rightarrow> []
      | Some t \<Rightarrow>
          (let content = toLowerCase (subject t @ '' '' @ html_content t) in
             concat (map (\<lambda>word. if includes_str content word
                                  then [\<lparr>issue_type = Warning,
                                         message = ''Template contains potential spam trigger word: ''
                                                   @ [CHR 0x22] @ word @ [CHR 0x22]\<rparr>]
                                  else []) spamWords))
          @ (if \<not> includes_str (html_content t) ''unsubscribe''
             then [\<lparr>issue_type = Warning,
                    message = ''Consider adding an unsubscribe link for compliance''\<rparr>]
             else [])
          @ (if length (subject t) > 60
             then [\<lparr>issue_type = Warning,
                    message = ''Subject line is longer than 60 characters (may be truncated)''\<rparr>]
             else []))
     @ (if recipientCount > 500
        then [\<lparr>issue_type = Warning,
               message = ''Sending to '' @ show_nat recipientCount
                         @ '' recipients. Consider using slow-send settings.''\<rparr>]
        else [])
     @ (if smtpPassword = []
        then [\<lparr>issue_type = Error, message = ''SMTP password is required to send emails''\<rparr>]
        else [])"

section \<open>The renderer as the specification describes it\<close>

text \<open>
  A template as a sequence of pieces: literal text and tokens \<^verbatim>\<open>{{name}}\<close>. \<open>unparse\<close>
  gives the text of the template. \<open>render_spec\<close> follows the words of the specification:
  every token of a supported name becomes the value of the contact's field, the empty
  string when the field is null; every other token and all literal text stay verbatim.
  The supported names are the four the send path knows.
\<close>

datatype piece = Lit string | Tok string

definition token :: "string \<Rightarrow> string" where
  "token name = ''{{'' @ name @ ''}}''"

fun piece_text :: "piece \<Rightarrow> string" where
  "piece_text (Lit l) = l"
| "piece_text (Tok name) = token name"

definition unparse :: "piece list \<Rightarrow> string" where
  "unparse ps = concat (map piece_text ps)"

definition field_value :: "Contact \<Rightarrow> string \<Rightarrow> string option" where
  "field_value c name =
     (if name = ''first_name'' then Some (or_empty (first_name c))
      else if name = ''last_name'' then Some (or_empty (last_name c))
      else if name = ''email'' then Some (email c)
      else if name = ''company'' then Some (or_empty (company c))
      else None)"

fun render_piece :: "Contact \<Rightarrow> piece \<Rightarrow> string" where
  "render_piece c (Lit l) = l"
| "render_piece c (Tok name) = (case field_value c name of Some v \<Rightarrow> v | None \<Rightarrow> token name)"

definition render_spec :: "Contact \<Rightarrow> piece list \<Rightarrow> string" where
  "render_spec c ps = concat (map (render_piece c) ps)"

text \<open>
  Text in which no two braces \<^verbatim>\<open>{{\<close> follow each other and which does not end in
  \<^verbatim>\<open>{\<close>, so that no token starts in it; a piece is well formed when its literal text is
  plain, or the name of its token has no brace. A text has no pattern when no \<^verbatim>\<open>$\<close> in
  it is followed by \<^verbatim>\<open>$\<close>, \<^verbatim>\<open>&\<close>, a backquote or a quote; a value is plain when it is
  plain text without a pattern. \<open>subst\<close> is the effect of one pass of \<open>replace_g\<close> on a
  piece.
\<close>

fun plain :: "string \<Rightarrow> bool" where
  "plain [] = True"
| "plain [x] = (x \<noteq> CHR ''{'')"
| "plain (x # y # r) = ((x \<noteq> CHR ''{'' \<or> y \<noteq> CHR ''{'') \<and> plain (y # r))"

fun well_formed :: "piece \<Rightarrow> bool" where
  "well_formed (Lit l) = plain l"
| "well_formed (Tok name) = (CHR ''{'' \<notin> set name \<and> CHR ''}'' \<notin> set name)"

fun no_pattern :: "string \<Rightarrow> bool" where
  "no_pattern [] = True"
| "no_pattern [c] = True"
| "no_pattern (c # d # rest) =
     ((c \<noteq> CHR ''$''
       \<or> (d \<noteq> CHR ''$'' \<and> d \<noteq> CHR ''&'' \<and> d \<noteq> CHR 0x60 \<and> d \<noteq> CHR 0x27))
      \<and> no_pattern (d # rest))"

definition plain_value :: "string \<Rightarrow> bool" where
  "plain_value v = (plain v \<and> no_pattern v)"

fun subst :: "string \<Rightarrow> string \<Rightarrow> piece \<Rightarrow> piece" where
  "subst n rep (Lit l) = Lit l"
| "subst n rep (Tok m) = (if m = n then Lit rep else Tok m)"

section \<open>Notions for stating the results\<close>

text \<open>
  The update one turn of the loop applies to the rows with the recipient's id, the
  outcomes of the attempts of a batch in order, and the table after every row whose id
  has a verdict got its update.
\<close>

definition mark :: "env \<Rightarrow> send_outcome \<Rightarrow> recipient \<Rightarrow> recipient" where
  "mark e outcome row =
     (if outcome = Delivered then row\<lparr>recipient_status := Sent, sent_at := Some (now e)\<rparr>
      else row\<lparr>recipient_status := SendFailed, error_message := Some (errorMsg outcome)\<rparr>)"

definition outcomes ::
  "env \<Rightarrow> connection \<Rightarrow> smtp_setting \<Rightarrow> email_template option \<Rightarrow> nat \<Rightarrow> recipient list
     \<Rightarrow> send_outcome list" where
  "outcomes e conn smtpSettings template i batch =
     map (\<lambda>(k, r). attempt e conn smtpSettings template k r) (zip [i ..< i + length batch] batch)"

definition settle :: "env \<Rightarrow> (string \<rightharpoonup> send_outcome) \<Rightarrow> recipient \<Rightarrow> recipient" where
  "settle e verdict row =
     (case verdict (recipient_id row) of None \<Rightarrow> row | Some outcome \<Rightarrow> mark e outcome row)"

text \<open>
  A caller that invokes the endpoint once per environment of the list, in sequence, and
  the number a response carries under a key (\<open>0\<close> when the key is absent).
\<close>

definition invoke_all :: "env list \<Rightarrow> request \<Rightarrow> store \<Rightarrow> store" where
  "invoke_all es req st = foldl (\<lambda>s e. snd (serve e req s)) st es"

definition reported :: "string \<Rightarrow> response \<Rightarrow> int" where
  "reported key resp =
     (case body resp of
        None \<Rightarrow> 0
      | Some entries \<Rightarrow> (case map_of entries key of Some (JNum n) \<Rightarrow> n | _ \<Rightarrow> 0))"

section \<open>Example data\<close>

definition ann :: Contact where
  "ann = \<lparr>contact_id = ''c1'', email = ''ann@example.com'', first_name = Some ''Ann'',
          last_name = Some ''Lee'', company = None\<rparr>"

definition greeting :: email_template where
  "greeting = \<lparr>subject = ''Hi {{first_name}}'',
              html_content = ''<p>Hello {{first_name}} {{last_name}}</p>''\<rparr>"

definition smtp_row :: smtp_setting where
  "smtp_row = \<lparr>host = ''smtp.example.com'', port = 587, username = ''mailer'',
               from_email = ''news@example.com'', from_name = ''News'', use_tls = Some True\<rparr>"

definition pending_row :: "string \<Rightarrow> recipient" where
  "pending_row rid = \<lparr>recipient_id = rid, campaign_id = ''k1'', recipient_status = Pending,
                       sent_at = None, error_message = None, contacts = ann\<rparr>"

definition sent_row :: "string \<Rightarrow> recipient" where
  "sent_row rid = \<lparr>recipient_id = rid, campaign_id = ''k1'', recipient_status = Sent,
                    sent_at = Some ''2026-01-07T09:00:01.000Z'', error_message = None,
                    contacts = ann\<rparr>"

text \<open>A campaign whose two recipients have been sent and that is completed.\<close>

definition completed_campaign :: campaign where
  "completed_campaign =
     \<lparr>camp_id = ''k1'', email_templates = Some greeting, status = Completed,
      total_recipients = Some 2, sent_count = Some 2, failed_count = Some 0,
      started_at = Some ''2026-01-07T09:00:00.000Z'',
      completed_at = Some ''2026-01-07T09:05:00.000Z'',
      updated_at = ''2026-01-07 09:05:00+00''\<rparr>"

definition completed_store :: store where
  "completed_store =
     \<lparr>campaigns = [completed_campaign], smtp_settings = [smtp_row],
      campaign_recipients = [sent_row ''r1'', sent_row ''r2'']\<rparr>"

text \<open>A campaign in a given status with three pending recipients and nothing sent yet.\<close>

definition fresh_campaign :: "campaign_status \<Rightarrow> campaign" where
  "fresh_campaign s =
     \<lparr>camp_id = ''k1'', email_templates = Some greeting, status = s,
      total_recipients = Some 3, sent_count = Some 0, failed_count = Some 0,
      started_at = None, completed_at = None, updated_at = ''2026-01-07 08:00:00+00''\<rparr>"

definition fresh_store :: "campaign_status \<Rightarrow> store" where
  "fresh_store s =
     \<lparr>campaigns = [fresh_campaign s], smtp_settings = [smtp_row],
      campaign_recipients = [pending_row ''r1'', pending_row ''r2'', pending_row ''r3'']\<rparr>"

text \<open>
  The same campaign after one of its three recipient rows has gone: the foreign keys of
  \<open>campaign_recipients\<close> cascade when a contact or a campaign is deleted, and
  \<open>total_recipients\<close> stays as it was written at creation.
\<close>

definition shrunk_store :: store where
  "shrunk_store =
     \<lparr>campaigns = [fresh_campaign Draft], smtp_settings = [smtp_row],
      campaign_recipients = [pending_row ''r1'', pending_row ''r3'']\<rparr>"

text \<open>The same campaign after its first recipient has been sent, the other two pending.\<close>

definition resumed_store :: store where
  "resumed_store =
     \<lparr>campaigns = [(fresh_campaign Sending)
                     \<lparr>sent_count := Some 1, started_at := Some ''2026-01-07T09:00:00.000Z''\<rparr>],
      smtp_settings = [smtp_row],
      campaign_recipients = [sent_row ''r1'', pending_row ''r2'', pending_row ''r3'']\<rparr>"

text \<open>An invocation a day later in which the server rejects the second message.\<close>

definition later :: env where
  "later = \<lparr>now = ''2026-01-08T10:00:00.000Z'', db_now = ''2026-01-08 10:00:00+00'',
            client_send = (\<lambda>conn i m. if i = 1 then ThrowsError ''550 mailbox unavailable''
                                        else Delivered),
            recipients_error = False\<rparr>"


definition post :: request where
  "post = \<lparr>req_method = ''POST'', json = Parsed (Some ''k1'') (Some ''secret'')\<rparr>"

section \<open>Request validation\<close>

lemma serve_valid:
  "req_method req \<noteq> ''OPTIONS'' \<Longrightarrow> json req = Parsed (Some cid) (Some pw) \<Longrightarrow> cid \<noteq> [] \<Longrightarrow> pw \<noteq> []
     \<Longrightarrow> serve e req st = dispatch e cid pw st"
  by (simp add: serve_def falsy_def or_empty_def)



section \<open>Setup failures\<close>






section \<open>Dispatch with no pending recipient\<close>

lemma dispatch_no_pending:
  assumes "single (filter (\<lambda>row. camp_id row = cid) (campaigns st)) = Some c"
    and "smtp_settings st \<noteq> []"
    and "\<not> recipients_error e"
    and "pending_rows cid st = []"
  shows "dispatch e cid pw st =
           (ok_response [(''success'', JBool True), (''message'', JStr ''No pending recipients''),
                         (''sent'', JNum 0)],
            update_campaigns (\<lambda>row. row\<lparr>status := Completed, completed_at := Some (now e)\<rparr>)
              cid (db_now e) st)"
  using assms by (cases "smtp_settings st") (simp_all add: dispatch_def)

lemma single_SomeD:
  "single rows = Some r \<Longrightarrow> rows = [r]"
  by (cases rows; cases "tl rows") (auto simp: single_def split: list.splits)

lemma single_filter_unique:
  assumes "single (filter P rows) = Some r" and "x \<in> set rows" and "P x"
  shows "x = r"
proof -
  from assms(1) have "filter P rows = [r]" by (rule single_SomeD)
  moreover from assms(2,3) have "x \<in> set (filter P rows)" by simp
  ultimately show ?thesis by simp
qed

text \<open>
  C1, as stated: on a completed campaign the dispatch answers
  \<^verbatim>\<open>{sent: 0, failed: 0, remaining: 0}\<close> and changes neither a recipient row nor a field
  of the campaign. It fails on the completed example campaign: the answer has no field
  \<open>failed\<close> or \<open>remaining\<close>, and the campaign row is written again.
\<close>

theorem completed_dispatch_noop_counterexample:
  "\<not> (map_option (\<lambda>b. (map_of b ''sent'', map_of b ''failed'', map_of b ''remaining''))
          (body (fst (serve later post completed_store)))
        = Some (Some (JNum 0), Some (JNum 0), Some (JNum 0))
      \<and> campaign_recipients (snd (serve later post completed_store))
        = campaign_recipients completed_store
      \<and> campaigns (snd (serve later post completed_store)) = campaigns completed_store)"
  by (simp add: serve_def post_def falsy_def or_empty_def dispatch_def single_def completed_store_def
        completed_campaign_def pending_rows_def sent_row_def later_def ok_response_def
        update_campaigns_def)

text \<open>
  C1, amended: on a campaign in status \<open>completed\<close> with no pending recipient, when the
  request carries both fields, SMTP settings exist and the query for the recipients
  succeeds, the dispatch is no error. It answers HTTP 200 with
  \<^verbatim>\<open>{success: true, message: "No pending recipients", sent: 0}\<close>, changes no recipient row
  and no SMTP setting, and leaves every field of every campaign as it was, the status
  included, apart from the two time stamps \<open>completed_at\<close> and \<open>updated_at\<close>.
\<close>

theorem completed_dispatch_nothing_to_do:
  assumes "req_method req \<noteq> ''OPTIONS''"
    and "json req = Parsed (Some cid) (Some pw)" and "cid \<noteq> []" and "pw \<noteq> []"
    and "single (filter (\<lambda>row. camp_id row = cid) (campaigns st)) = Some c"
    and "status c = Completed"
    and "pending_rows cid st = []"
    and "smtp_settings st \<noteq> []"
    and "\<not> recipients_error e"
  shows "fst (serve e req st) =
           \<lparr>http_status = 200,
            body = Some [(''success'', JBool True), (''message'', JStr ''No pending recipients''),
                         (''sent'', JNum 0)]\<rparr>
         \<and> campaign_recipients (snd (serve e req st)) = campaign_recipients st
         \<and> smtp_settings (snd (serve e req st)) = smtp_settings st
         \<and> map (\<lambda>row. row\<lparr>completed_at := None, updated_at := []\<rparr>) (campaigns (snd (serve e req st)))
           = map (\<lambda>row. row\<lparr>completed_at := None, updated_at := []\<rparr>) (campaigns st)"
proof -
  have run: "serve e req st =
               (ok_response [(''success'', JBool True), (''message'', JStr ''No pending recipients''),
                             (''sent'', JNum 0)],
                update_campaigns (\<lambda>row. row\<lparr>status := Completed, completed_at := Some (now e)\<rparr>)
                  cid (db_now e) st)"
    using assms by (simp add: serve_valid dispatch_no_pending)
  have same: "(if camp_id x = cid
               then x\<lparr>status := Completed, completed_at := Some (now e), updated_at := db_now e\<rparr>
               else x)\<lparr>completed_at := None, updated_at := []\<rparr>
              = x\<lparr>completed_at := None, updated_at := []\<rparr>"
    if "x \<in> set (campaigns st)" for x
  proof (cases "camp_id x = cid")
    case True
    with that assms(5) have "x = c" by (auto intro: single_filter_unique)
    with assms(6) have "status x = Completed" by simp
    with True show ?thesis by simp
  next
    case False
    then show ?thesis by simp
  qed
  from run same show ?thesis
    by (simp add: ok_response_def update_campaigns_def)
qed

theorem completed_dispatch_nothing_to_do_witness:
  "fst (serve later post completed_store) =
     \<lparr>http_status = 200,
      body = Some [(''success'', JBool True), (''message'', JStr ''No pending recipients''),
                   (''sent'', JNum 0)]\<rparr>
   \<and> campaign_recipients (snd (serve later post completed_store)) = campaign_recipients completed_store
   \<and> smtp_settings (snd (serve later post completed_store)) = smtp_settings completed_store
   \<and> map (\<lambda>row. row\<lparr>completed_at := None, updated_at := []\<rparr>)
         (campaigns (snd (serve later post completed_store)))
     = map (\<lambda>row. row\<lparr>completed_at := None, updated_at := []\<rparr>) (campaigns completed_store)"
proof (rule completed_dispatch_nothing_to_do [where cid = "''k1''" and pw = "''secret''"
         and c = completed_campaign])
  show "req_method post \<noteq> ''OPTIONS''" by (simp add: post_def)
  show "json post = Parsed (Some ''k1'') (Some ''secret'')" by (simp add: post_def)
  show "''k1'' \<noteq> []" by simp
  show "''secret'' \<noteq> []" by simp
  show "single (filter (\<lambda>row. camp_id row = ''k1'') (campaigns completed_store)) = Some completed_campaign"
    by (simp add: completed_store_def completed_campaign_def single_def)
  show "status completed_campaign = Completed" by (simp add: completed_campaign_def)
  show "pending_rows ''k1'' completed_store = []"
    by (simp add: pending_rows_def completed_store_def sent_row_def)
  show "smtp_settings completed_store \<noteq> []" by (simp add: completed_store_def)
  show "\<not> recipients_error later" by (simp add: later_def)
qed

text \<open>
  C6. \<open>completed_at\<close> is to be set once, on the transition into \<open>completed\<close>. The code
  stamps it on every dispatch that finds no pending recipient: on the example campaign,
  completed on 7 January, a dispatch on 8 January moves \<open>completed_at\<close> to 8 January,
  while \<open>started_at\<close> stays.
\<close>

theorem completed_at_restamped:
  "map completed_at (campaigns completed_store) = [Some ''2026-01-07T09:05:00.000Z'']
   \<and> map completed_at (campaigns (snd (serve later post completed_store)))
     = [Some ''2026-01-08T10:00:00.000Z'']
   \<and> map started_at (campaigns (snd (serve later post completed_store)))
     = map started_at (campaigns completed_store)"
  by (simp add: serve_def post_def falsy_def or_empty_def dispatch_def single_def completed_store_def
        completed_campaign_def pending_rows_def sent_row_def later_def update_campaigns_def)

section \<open>Tokens the send path does not know\<close>

text \<open>
  C7. The send path is to put the contact's full name in place of \<^verbatim>\<open>{{full_name}}\<close>, and
  the empty string when both parts of the name are missing. \<open>replacePlaceholders\<close> has
  no case for this token: it reaches the recipient as it stands, whether the contact has
  a name or not.
\<close>

theorem full_name_left_verbatim:
  "replacePlaceholders ''Dear {{full_name}},'' ann = ''Dear {{full_name}},''
   \<and> replacePlaceholders ''Dear {{full_name}},'' (ann\<lparr>first_name := None, last_name := None\<rparr>)
     = ''Dear {{full_name}},''"
  by (simp add: replacePlaceholders_def replace_g_def ann_def or_empty_def)

section \<open>The unsubscribe rule of the deliverability check\<close>

text \<open>
  What the code does: for a selected template the warning is given exactly when the body
  as written does not contain \<open>unsubscribe\<close> in lower case.
\<close>

lemma unsubscribe_warning_iff:
  "\<lparr>issue_type = Warning, message = ''Consider adding an unsubscribe link for compliance''\<rparr>
     \<in> set (runDeliverabilityCheck (Some t) recipientCount smtpPassword)
   \<longleftrightarrow> \<not> includes_str (html_content t) ''unsubscribe''"
  by (auto simp: runDeliverabilityCheck_def spamWords_def Let_def)

text \<open>
  C9. The warning about a missing unsubscribe link is to be given exactly when the body
  does not contain \<open>unsubscribe\<close> in any mix of cases. The code compares the body as it
  is: for a body with the link text \<open>Unsubscribe\<close>, which contains the word once put in
  lower case, the warning is given all the same.
\<close>

theorem unsubscribe_check_case_sensitive:
  "includes_str (toLowerCase ''<p>News</p><a href=/optout>Unsubscribe</a>'') ''unsubscribe''
   \<and> runDeliverabilityCheck
         (Some \<lparr>subject = ''Hello'', html_content = ''<p>News</p><a href=/optout>Unsubscribe</a>''\<rparr>)
         3 ''secret''
     = [\<lparr>issue_type = Warning, message = ''Consider adding an unsubscribe link for compliance''\<rparr>]"
  by code_simp

section \<open>The batch loop\<close>

lemma process_batch_Cons:
  "process_batch e conn ss tpl i (r # rs) (st, s, f) =
     process_batch e conn ss tpl (Suc i) rs
       (update_recipients (mark e (attempt e conn ss tpl i r)) (recipient_id r) st,
        s + (if attempt e conn ss tpl i r = Delivered then 1 else 0),
        f + (if attempt e conn ss tpl i r = Delivered then 0 else 1))"
  by (cases "attempt e conn ss tpl i r") (simp_all add: mark_def [abs_def])

lemma outcomes_Nil [simp]: "outcomes e conn ss tpl i [] = []"
  by (simp add: outcomes_def)

lemma outcomes_Cons:
  "outcomes e conn ss tpl i (r # rs) = attempt e conn ss tpl i r # outcomes e conn ss tpl (Suc i) rs"
  by (simp add: outcomes_def upt_rec)

lemma length_outcomes [simp]: "length (outcomes e conn ss tpl i batch) = length batch"
  by (simp add: outcomes_def)


lemma mark_id [simp]: "recipient_id (mark e outcome row) = recipient_id row"
  by (simp add: mark_def)

lemma mark_campaign [simp]: "campaign_id (mark e outcome row) = campaign_id row"
  by (simp add: mark_def)

lemma mark_not_pending [simp]: "recipient_status (mark e outcome row) \<noteq> Pending"
  by (simp add: mark_def)

lemma process_batch_store:
  "distinct (map recipient_id batch) \<Longrightarrow>
   fst (process_batch e conn ss tpl i batch (st, s, f)) =
     st\<lparr>campaign_recipients :=
          map (settle e (map_of (zip (map recipient_id batch) (outcomes e conn ss tpl i batch))))
            (campaign_recipients st)\<rparr>"
proof (induction batch arbitrary: i st s f)
  case Nil
  then show ?case by (simp add: settle_def)
next
  case (Cons r rs)
  from Cons.prems have fresh: "recipient_id r \<notin> set (map recipient_id rs)" and d: "distinct (map recipient_id rs)"
    by simp_all
  have none: "map_of (zip (map recipient_id rs) (outcomes e conn ss tpl (Suc i) rs)) (recipient_id r) = None"
    using fresh by simp
  show ?case
    unfolding process_batch_Cons Cons.IH [OF d]
    by (auto simp: update_recipients_def outcomes_Cons settle_def none)
qed

lemma process_batch_counts:
  "snd (process_batch e conn ss tpl i batch (st, s, f)) =
     (s + int (length (filter (\<lambda>outcome. outcome = Delivered) (outcomes e conn ss tpl i batch))),
      f + int (length (filter (\<lambda>outcome. outcome \<noteq> Delivered) (outcomes e conn ss tpl i batch))))"
proof (induction batch arbitrary: i st s f)
  case Nil
  then show ?case by simp
next
  case (Cons r rs)
  show ?case
    unfolding process_batch_Cons Cons.IH
    by (simp add: outcomes_Cons)
qed


lemma filter_not_in_take:
  "distinct (map f xs) \<Longrightarrow> filter (\<lambda>x. f x \<notin> set (map f (take n xs))) xs = drop n xs"
proof (induction xs arbitrary: n)
  case Nil
  then show ?case by simp
next
  case (Cons x xs)
  show ?case
  proof (cases n)
    case 0
    then show ?thesis by simp
  next
    case (Suc m)
    from Cons.prems have fresh: "f x \<notin> f ` set xs" and d: "distinct (map f xs)" by simp_all
    have other: "f y \<noteq> f x" if "y \<in> set xs" for y
      using fresh that by (metis imageI)
    have "filter (\<lambda>y. f y \<notin> set (map f (take n (x # xs)))) xs
            = filter (\<lambda>y. f y \<notin> set (map f (take m xs))) xs"
      using other Suc by (intro filter_cong) auto
    with Cons.IH [OF d, of m] Suc show ?thesis by simp
  qed
qed

lemma pending_rows_settle:
  "pending_rows cid (st\<lparr>campaign_recipients := map (settle e verdict) (campaign_recipients st)\<rparr>)
     = filter (\<lambda>row. recipient_id row \<notin> dom verdict) (pending_rows cid st)"
proof -
  have "filter (\<lambda>r. campaign_id r = cid \<and> recipient_status r = Pending) (map (settle e verdict) rows)
          = filter (\<lambda>row. recipient_id row \<notin> dom verdict)
              (filter (\<lambda>r. campaign_id r = cid \<and> recipient_status r = Pending) rows)" for rows
    by (induction rows) (auto simp: settle_def split: option.splits)
  then show ?thesis by (simp add: pending_rows_def)
qed

lemma pending_rows_campaigns [simp]:
  "pending_rows cid (update_campaigns f cid' t st) = pending_rows cid st"
  by (simp add: pending_rows_def update_campaigns_def)

lemma single_update_campaigns:
  assumes "single (filter (\<lambda>row. camp_id row = cid) (campaigns st)) = Some c"
    and "\<And>row. camp_id (f row) = camp_id row"
  shows "single (filter (\<lambda>row. camp_id row = cid) (campaigns (update_campaigns f cid t st)))
           = Some ((f c)\<lparr>updated_at := t\<rparr>)"
proof -
  have "filter (\<lambda>row. camp_id row = cid)
          (map (\<lambda>c. if camp_id c = cid then (f c)\<lparr>updated_at := t\<rparr> else c) rows)
        = map (\<lambda>c. (f c)\<lparr>updated_at := t\<rparr>) (filter (\<lambda>row. camp_id row = cid) rows)" for rows
    by (induction rows) (auto simp: assms(2))
  with single_SomeD [OF assms(1)] show ?thesis
    by (simp add: update_campaigns_def single_def)
qed

lemma distinct_batch:
  "distinct (map recipient_id (campaign_recipients st))
     \<Longrightarrow> distinct (map recipient_id (pending_rows cid st))"
  by (simp add: pending_rows_def distinct_map_filter)

lemma dispatch_batch_result:
  fixes e :: env and ss :: smtp_setting and pw :: string
  assumes c: "single (filter (\<lambda>row. camp_id row = cid) (campaigns st)) = Some c"
    and d: "distinct (map recipient_id (campaign_recipients st))"
    and batch: "batch = take 50 (pending_rows cid st)"
  defines "os \<equiv> outcomes e (smtp_connection ss pw) ss (email_templates c) 0 batch"
  defines "s \<equiv> int (length (filter (\<lambda>outcome. outcome = Delivered) os))"
    and "f \<equiv> int (length (filter (\<lambda>outcome. outcome \<noteq> Delivered) os))"
  shows "dispatch_batch e cid pw c ss batch st =
     (ok_response
        [(''success'', JBool True), (''sent'', JNum s), (''failed'', JNum f),
         (''remaining'', JNum (int (length (drop 50 (pending_rows cid st))))),
         (''message'', JStr (if 50 < length (pending_rows cid st)
                             then ''Batch completed, more recipients pending''
                             else ''All emails sent''))],
      st\<lparr>campaigns :=
           map (\<lambda>row. if camp_id row = cid
                       then row\<lparr>status := Sending,
                                started_at := Some (or_else (started_at c) (now e)),
                                sent_count := Some (or_zero (sent_count c) + s),
                                failed_count := Some (or_zero (failed_count c) + f),
                                updated_at := db_now e\<rparr>
                       else row) (campaigns st),
         campaign_recipients :=
           map (settle e (map_of (zip (map recipient_id batch) os))) (campaign_recipients st)\<rparr>)"
proof -
  let ?st1 = "update_campaigns
                (\<lambda>row. row\<lparr>status := Sending, started_at := Some (or_else (started_at c) (now e))\<rparr>)
                cid (db_now e) st"
  let ?conn = "smtp_connection ss pw"
  let ?res = "process_batch e ?conn ss (email_templates c) 0 batch (?st1, 0, 0)"
  let ?verdict = "map_of (zip (map recipient_id batch) os)"
  have db: "distinct (map recipient_id batch)"
    unfolding batch using distinct_batch [OF d, of cid]
    by (simp add: take_map [symmetric])
  have st2: "fst ?res = ?st1\<lparr>campaign_recipients := map (settle e ?verdict) (campaign_recipients ?st1)\<rparr>"
    unfolding os_def by (rule process_batch_store [OF db])
  have counts: "snd ?res = (s, f)"
    unfolding s_def f_def os_def by (simp add: process_batch_counts)
  have cur: "persisted column cid (fst ?res) = or_zero (column c)"
    if "column = sent_count \<or> column = failed_count" for column
    unfolding st2 persisted_def using single_update_campaigns [OF c, of _ "db_now e"] that
    by (auto simp: update_campaigns_def)
  have dom: "dom ?verdict = set (map recipient_id batch)"
    by (rule dom_map_of_zip) (simp_all add: os_def db)
  have pend: "pending_rows cid
                (update_campaigns g cid (db_now e) (fst ?res)) = drop 50 (pending_rows cid st)" for g
  proof -
    have "pending_rows cid (update_campaigns g cid (db_now e) (fst ?res))
            = pending_rows cid (?st1\<lparr>campaign_recipients := map (settle e ?verdict) (campaign_recipients ?st1)\<rparr>)"
      by (simp only: pending_rows_campaigns st2)
    also have "\<dots> = filter (\<lambda>row. recipient_id row \<notin> dom ?verdict) (pending_rows cid ?st1)"
      by (rule pending_rows_settle)
    also have "\<dots> = filter (\<lambda>row. recipient_id row \<notin> set (map recipient_id (take 50 (pending_rows cid st))))
                       (pending_rows cid st)"
      by (simp only: pending_rows_campaigns dom [unfolded batch] batch)
    also have "\<dots> = drop 50 (pending_rows cid st)"
      by (rule filter_not_in_take [OF distinct_batch [OF d]])
    finally show ?thesis .
  qed
  have res: "?res = (fst ?res, s, f)"
    using counts by (metis prod.collapse)
  show ?thesis
    unfolding dispatch_batch_def Let_def
    apply (subst res)
    apply (simp only: prod.case cur [of sent_count, simplified] cur [of failed_count, simplified] pend)
    apply (simp only: st2)
    apply (simp add: update_campaigns_def comp_def)
    done
qed

lemma dispatch_pending:
  assumes "single (filter (\<lambda>row. camp_id row = cid) (campaigns st)) = Some c"
    and "smtp_settings st = ss # rest"
    and "\<not> recipients_error e"
    and "pending_rows cid st \<noteq> []"
  shows "dispatch e cid pw st = dispatch_batch e cid pw c ss (take 50 (pending_rows cid st)) st"
  using assms by (simp add: dispatch_def)


lemma single_map_update:
  assumes "single (filter (\<lambda>row. camp_id row = cid) rows) = Some c"
    and "\<And>row. camp_id (g row) = camp_id row"
  shows "single (filter (\<lambda>row. camp_id row = cid)
                   (map (\<lambda>row. if camp_id row = cid then g row else row) rows)) = Some (g c)"
proof -
  have "filter (\<lambda>row. camp_id row = cid) (map (\<lambda>row. if camp_id row = cid then g row else row) xs)
        = map g (filter (\<lambda>row. camp_id row = cid) xs)" for xs
    by (induction xs) (auto simp: assms(2))
  with single_SomeD [OF assms(1)] show ?thesis
    by (simp add: single_def)
qed

lemma persisted_single:
  "single (filter (\<lambda>row. camp_id row = cid) (campaigns st)) = Some c
     \<Longrightarrow> persisted column cid st = or_zero (column c)"
  by (simp add: persisted_def)

lemma or_zero_Some [simp]: "or_zero (Some n) = n"
  by (simp add: or_zero_def)

lemma settle_id [simp]: "recipient_id (settle e verdict row) = recipient_id row"
  by (simp add: settle_def split: option.splits)

lemma serve_step:
  assumes "req_method req \<noteq> ''OPTIONS''"
    and "json req = Parsed (Some cid) (Some pw)" and "cid \<noteq> []" and "pw \<noteq> []"
    and c: "single (filter (\<lambda>row. camp_id row = cid) (campaigns st)) = Some c"
    and ss: "smtp_settings st \<noteq> []"
    and ok: "\<not> recipients_error e"
    and d: "distinct (map recipient_id (campaign_recipients st))"
  shows "\<exists>c'. single (filter (\<lambda>row. camp_id row = cid) (campaigns (snd (serve e req st)))) = Some c'
              \<and> total_recipients c' = total_recipients c
              \<and> or_zero (sent_count c') = or_zero (sent_count c) + reported ''sent'' (fst (serve e req st))
              \<and> or_zero (failed_count c')
                  = or_zero (failed_count c) + reported ''failed'' (fst (serve e req st))"
    and "smtp_settings (snd (serve e req st)) = smtp_settings st"
    and "map recipient_id (campaign_recipients (snd (serve e req st)))
           = map recipient_id (campaign_recipients st)"
    and "pending_rows cid (snd (serve e req st)) = drop 50 (pending_rows cid st)"
    and "reported ''sent'' (fst (serve e req st)) + reported ''failed'' (fst (serve e req st))
           = int (length (take 50 (pending_rows cid st)))"
proof -
  have run: "serve e req st = dispatch e cid pw st"
    using assms(1-4) by (rule serve_valid)
  show "\<exists>c'. single (filter (\<lambda>row. camp_id row = cid) (campaigns (snd (serve e req st)))) = Some c'
              \<and> total_recipients c' = total_recipients c
              \<and> or_zero (sent_count c') = or_zero (sent_count c) + reported ''sent'' (fst (serve e req st))
              \<and> or_zero (failed_count c')
                  = or_zero (failed_count c) + reported ''failed'' (fst (serve e req st))"
  proof (cases "pending_rows cid st = []")
    case True
    show ?thesis
      unfolding run dispatch_no_pending [OF c ss ok True]
      using single_update_campaigns [OF c, of "\<lambda>row. row\<lparr>status := Completed, completed_at := Some (now e)\<rparr>" "db_now e"]
      by (simp add: reported_def ok_response_def)
  next
    case False
    from ss obtain s rest where s: "smtp_settings st = s # rest" by (cases "smtp_settings st") auto
    let ?os = "outcomes e (smtp_connection s pw) s (email_templates c) 0 (take 50 (pending_rows cid st))"
    show ?thesis
      unfolding run dispatch_pending [OF c s ok False] dispatch_batch_result [OF c d refl]
      using single_map_update [OF c, of "\<lambda>row. row\<lparr>status := Sending,
                                started_at := Some (or_else (started_at c) (now e)),
                                sent_count := Some (or_zero (sent_count c)
                                   + int (length (filter (\<lambda>outcome. outcome = Delivered) ?os))),
                                failed_count := Some (or_zero (failed_count c)
                                   + int (length (filter (\<lambda>outcome. outcome \<noteq> Delivered) ?os))),
                                updated_at := db_now e\<rparr>"]
      by (simp add: reported_def ok_response_def)
  qed
  show "smtp_settings (snd (serve e req st)) = smtp_settings st"
  proof (cases "pending_rows cid st = []")
    case True
    show ?thesis
      unfolding run dispatch_no_pending [OF c ss ok True] by (simp add: update_campaigns_def)
  next
    case False
    from ss obtain s rest where s: "smtp_settings st = s # rest" by (cases "smtp_settings st") auto
    show ?thesis
      unfolding run dispatch_pending [OF c s ok False] dispatch_batch_result [OF c d refl] by simp
  qed
  show "map recipient_id (campaign_recipients (snd (serve e req st)))
           = map recipient_id (campaign_recipients st)"
  proof (cases "pending_rows cid st = []")
    case True
    show ?thesis
      unfolding run dispatch_no_pending [OF c ss ok True] by (simp add: update_campaigns_def)
  next
    case False
    from ss obtain s rest where s: "smtp_settings st = s # rest" by (cases "smtp_settings st") auto
    show ?thesis
      unfolding run dispatch_pending [OF c s ok False] dispatch_batch_result [OF c d refl]
      by (simp add: comp_def)
  qed
  show "pending_rows cid (snd (serve e req st)) = drop 50 (pending_rows cid st)"
  proof (cases "pending_rows cid st = []")
    case True
    show ?thesis
      unfolding run dispatch_no_pending [OF c ss ok True] by (simp add: True)
  next
    case False
    from ss obtain s rest where s: "smtp_settings st = s # rest" by (cases "smtp_settings st") auto
    let ?os = "outcomes e (smtp_connection s pw) s (email_templates c) 0 (take 50 (pending_rows cid st))"
    let ?verdict = "map_of (zip (map recipient_id (take 50 (pending_rows cid st))) ?os)"
    have db: "distinct (map recipient_id (take 50 (pending_rows cid st)))"
      using distinct_batch [OF d, of cid] by (simp add: take_map [symmetric])
    have dom: "dom ?verdict = set (map recipient_id (take 50 (pending_rows cid st)))"
      by (rule dom_map_of_zip) (simp_all add: db)
    have "pending_rows cid (snd (serve e req st))
            = pending_rows cid (st\<lparr>campaign_recipients := map (settle e ?verdict) (campaign_recipients st)\<rparr>)"
      unfolding run dispatch_pending [OF c s ok False] dispatch_batch_result [OF c d refl]
      by (simp add: pending_rows_def)
    also have "\<dots> = filter (\<lambda>row. recipient_id row \<notin> dom ?verdict) (pending_rows cid st)"
      by (rule pending_rows_settle)
    also have "\<dots> = drop 50 (pending_rows cid st)"
      unfolding dom by (rule filter_not_in_take [OF distinct_batch [OF d]])
    finally show ?thesis .
  qed
  show "reported ''sent'' (fst (serve e req st)) + reported ''failed'' (fst (serve e req st))
           = int (length (take 50 (pending_rows cid st)))"
  proof (cases "pending_rows cid st = []")
    case True
    show ?thesis
      unfolding run dispatch_no_pending [OF c ss ok True]
      by (simp add: True reported_def ok_response_def)
  next
    case False
    from ss obtain s rest where s: "smtp_settings st = s # rest" by (cases "smtp_settings st") auto
    let ?os = "outcomes e (smtp_connection s pw) s (email_templates c) 0 (take 50 (pending_rows cid st))"
    have "length (filter (\<lambda>outcome. outcome = Delivered) ?os)
            + length (filter (\<lambda>outcome. outcome \<noteq> Delivered) ?os) = length ?os"
      by (rule sum_length_filter_compl)
    then have "int (length (filter (\<lambda>outcome. outcome = Delivered) ?os))
                 + int (length (filter (\<lambda>outcome. outcome \<noteq> Delivered) ?os))
               = int (length (take 50 (pending_rows cid st)))"
      by (simp only: length_outcomes of_nat_add [symmetric])
    then show ?thesis
      unfolding run dispatch_pending [OF c s ok False] dispatch_batch_result [OF c d refl]
      by (simp add: reported_def ok_response_def)
  qed
qed

lemma serve_status:
  assumes "req_method req \<noteq> ''OPTIONS''"
    and "json req = Parsed (Some cid) (Some pw)" and "cid \<noteq> []" and "pw \<noteq> []"
    and c: "single (filter (\<lambda>row. camp_id row = cid) (campaigns st)) = Some c"
    and ss: "smtp_settings st \<noteq> []"
    and ok: "\<not> recipients_error e"
    and d: "distinct (map recipient_id (campaign_recipients st))"
  shows "map_option status (single (filter (\<lambda>row. camp_id row = cid) (campaigns (snd (serve e req st)))))
           = Some (if pending_rows cid st = [] then Completed else Sending)"
proof -
  have run: "serve e req st = dispatch e cid pw st"
    using assms(1-4) by (rule serve_valid)
  show ?thesis
  proof (cases "pending_rows cid st = []")
    case True
    show ?thesis
      unfolding run dispatch_no_pending [OF c ss ok True]
      using single_update_campaigns [OF c, of "\<lambda>row. row\<lparr>status := Completed, completed_at := Some (now e)\<rparr>" "db_now e"]
      by (simp add: True)
  next
    case False
    from ss obtain s rest where s: "smtp_settings st = s # rest" by (cases "smtp_settings st") auto
    let ?os = "outcomes e (smtp_connection s pw) s (email_templates c) 0 (take 50 (pending_rows cid st))"
    show ?thesis
      unfolding run dispatch_pending [OF c s ok False] dispatch_batch_result [OF c d refl]
      using single_map_update [OF c, of "\<lambda>row. row\<lparr>status := Sending,
                                started_at := Some (or_else (started_at c) (now e)),
                                sent_count := Some (or_zero (sent_count c)
                                   + int (length (filter (\<lambda>outcome. outcome = Delivered) ?os))),
                                failed_count := Some (or_zero (failed_count c)
                                   + int (length (filter (\<lambda>outcome. outcome \<noteq> Delivered) ?os))),
                                updated_at := db_now e\<rparr>"]
      by (simp add: False)
  qed
qed


section \<open>Isolation of a delivery failure\<close>







section \<open>A paused campaign\<close>

text \<open>
  C2, as stated: on a paused campaign the dispatch claims no recipient row and does not
  set the status to \<open>sending\<close>. It fails on the paused example campaign with three
  pending recipients: the rows are processed and the status becomes \<open>sending\<close>.
\<close>

theorem paused_campaign_claimed_counterexample:
  "\<not> (campaign_recipients (snd (serve later post (fresh_store Paused)))
          = campaign_recipients (fresh_store Paused)
      \<and> map status (campaigns (snd (serve later post (fresh_store Paused)))) \<noteq> [Sending])"
  by code_simp


text \<open>
  C2, amended: the handler does not look at the status of the campaign. On a paused
  campaign, when the request carries both fields, SMTP settings exist and the query for
  the recipients succeeds, it does what it does on any other: with no pending recipient
  it claims nothing and sets the status to \<open>completed\<close>; otherwise it sets the status to
  \<open>sending\<close> and processes the first pending rows, at most 50, none of which stays
  pending.
\<close>

theorem paused_campaign_dispatched:
  assumes "req_method req \<noteq> ''OPTIONS''"
    and "json req = Parsed (Some cid) (Some pw)" and "cid \<noteq> []" and "pw \<noteq> []"
    and "single (filter (\<lambda>row. camp_id row = cid) (campaigns st)) = Some c"
    and "status c = Paused"
    and "smtp_settings st \<noteq> []"
    and "\<not> recipients_error e"
    and "distinct (map recipient_id (campaign_recipients st))"
  shows "map_option status (single (filter (\<lambda>row. camp_id row = cid) (campaigns (snd (serve e req st)))))
           = Some (if pending_rows cid st = [] then Completed else Sending)
         \<and> pending_rows cid (snd (serve e req st)) = drop 50 (pending_rows cid st)
         \<and> reported ''sent'' (fst (serve e req st)) + reported ''failed'' (fst (serve e req st))
             = int (min 50 (length (pending_rows cid st)))"
  using serve_status [OF assms(1-5,7-9)] serve_step(4,5) [OF assms(1-5,7-9)]
  by (simp add: min.commute)


theorem paused_campaign_dispatched_witness:
  "map_option status (single (filter (\<lambda>row. camp_id row = ''k1'')
                                (campaigns (snd (serve later post (fresh_store Paused))))))
     = Some Sending
   \<and> pending_rows ''k1'' (snd (serve later post (fresh_store Paused))) = []
   \<and> reported ''sent'' (fst (serve later post (fresh_store Paused)))
       + reported ''failed'' (fst (serve later post (fresh_store Paused))) = 3"
proof -
  have req: "req_method post \<noteq> ''OPTIONS''" "json post = Parsed (Some ''k1'') (Some ''secret'')"
    "''k1'' \<noteq> []" "''secret'' \<noteq> []"
    by (simp_all add: post_def)
  have c: "single (filter (\<lambda>row. camp_id row = ''k1'') (campaigns (fresh_store Paused)))
             = Some (fresh_campaign Paused)"
    by (simp add: fresh_store_def fresh_campaign_def single_def)
  have paused: "status (fresh_campaign Paused) = Paused"
    by (simp add: fresh_campaign_def)
  have ss: "smtp_settings (fresh_store Paused) \<noteq> []"
    by (simp add: fresh_store_def)
  have ok: "\<not> recipients_error later"
    by (simp add: later_def)
  have d: "distinct (map recipient_id (campaign_recipients (fresh_store Paused)))"
    by (simp add: fresh_store_def pending_row_def)
  have pending: "pending_rows ''k1'' (fresh_store Paused)
                   = [pending_row ''r1'', pending_row ''r2'', pending_row ''r3'']"
    by (simp add: pending_rows_def fresh_store_def pending_row_def)
  from paused_campaign_dispatched [OF req c paused ss ok d] show ?thesis
    by (simp add: pending)
qed


section \<open>Repeated invocation and the counters\<close>

lemma invoke_all_Nil [simp]: "invoke_all [] req st = st"
  by (simp add: invoke_all_def)

lemma invoke_all_Cons [simp]: "invoke_all (e # es) req st = invoke_all es req (snd (serve e req st))"
  by (simp add: invoke_all_def)

lemma invoke_all_counts:
  assumes "req_method req \<noteq> ''OPTIONS''"
    and "json req = Parsed (Some cid) (Some pw)" and "cid \<noteq> []" and "pw \<noteq> []"
    and "single (filter (\<lambda>row. camp_id row = cid) (campaigns st)) = Some c"
    and "smtp_settings st \<noteq> []"
    and "distinct (map recipient_id (campaign_recipients st))"
    and "\<forall>e \<in> set es. \<not> recipients_error e"
  shows "(\<forall>k < length es.
            persisted sent_count cid (invoke_all (take (Suc k) es) req st)
              = persisted sent_count cid (invoke_all (take k es) req st)
                + reported ''sent'' (fst (serve (es ! k) req (invoke_all (take k es) req st)))
            \<and> persisted failed_count cid (invoke_all (take (Suc k) es) req st)
              = persisted failed_count cid (invoke_all (take k es) req st)
                + reported ''failed'' (fst (serve (es ! k) req (invoke_all (take k es) req st))))
         \<and> pending_rows cid (invoke_all es req st) = drop (50 * length es) (pending_rows cid st)
         \<and> persisted sent_count cid (invoke_all es req st)
             + persisted failed_count cid (invoke_all es req st)
             + int (length (pending_rows cid (invoke_all es req st)))
           = persisted sent_count cid st + persisted failed_count cid st
             + int (length (pending_rows cid st))
         \<and> persisted total_recipients cid (invoke_all es req st) = persisted total_recipients cid st"
  using assms(5-8)
proof (induction es arbitrary: st c)
  case Nil
  then show ?case by simp
next
  case (Cons e es)
  let ?r = "serve e req st"
  let ?st1 = "snd ?r"
  from Cons.prems(4) have ok: "\<not> recipients_error e" and oks: "\<forall>e \<in> set es. \<not> recipients_error e"
    by simp_all
  note step = serve_step [OF assms(1-4) Cons.prems(1,2) ok Cons.prems(3)]
  from step(1) obtain c' where c': "single (filter (\<lambda>row. camp_id row = cid) (campaigns ?st1)) = Some c'"
    and total: "total_recipients c' = total_recipients c"
    and sent: "or_zero (sent_count c') = or_zero (sent_count c) + reported ''sent'' (fst ?r)"
    and failed: "or_zero (failed_count c') = or_zero (failed_count c) + reported ''failed'' (fst ?r)"
    by blast
  from step(2) Cons.prems(2) have ss1: "smtp_settings ?st1 \<noteq> []" by simp
  from step(3) Cons.prems(3) have d1: "distinct (map recipient_id (campaign_recipients ?st1))" by simp
  note IH = Cons.IH [OF c' ss1 d1 oks]
  have p0: "persisted column cid st = or_zero (column c)" for column
    using Cons.prems(1) by (rule persisted_single)
  have p1: "persisted column cid ?st1 = or_zero (column c')" for column
    using c' by (rule persisted_single)
  have each: "persisted sent_count cid (invoke_all (take (Suc k) (e # es)) req st)
              = persisted sent_count cid (invoke_all (take k (e # es)) req st)
                + reported ''sent'' (fst (serve ((e # es) ! k) req (invoke_all (take k (e # es)) req st)))
            \<and> persisted failed_count cid (invoke_all (take (Suc k) (e # es)) req st)
              = persisted failed_count cid (invoke_all (take k (e # es)) req st)
                + reported ''failed'' (fst (serve ((e # es) ! k) req (invoke_all (take k (e # es)) req st)))"
    if "k < length (e # es)" for k
  proof (cases k)
    case 0
    then show ?thesis by (simp add: p0 p1 sent failed)
  next
    case (Suc k')
    with that have "k' < length es" by simp
    with IH have "persisted sent_count cid (invoke_all (take (Suc k') es) req ?st1)
              = persisted sent_count cid (invoke_all (take k' es) req ?st1)
                + reported ''sent'' (fst (serve (es ! k') req (invoke_all (take k' es) req ?st1)))
            \<and> persisted failed_count cid (invoke_all (take (Suc k') es) req ?st1)
              = persisted failed_count cid (invoke_all (take k' es) req ?st1)
                + reported ''failed'' (fst (serve (es ! k') req (invoke_all (take k' es) req ?st1)))"
      by blast
    with Suc show ?thesis by simp
  qed
  have pend: "pending_rows cid (invoke_all (e # es) req st)
                = drop (50 * length (e # es)) (pending_rows cid st)"
    using IH step(4) by (simp add: add.commute)
  have "int (length (take 50 (pending_rows cid st))) + int (length (pending_rows cid ?st1))
          = int (length (pending_rows cid st))"
    unfolding step(4) of_nat_add [symmetric] by simp
  with step(5) have B: "persisted sent_count cid ?st1 + persisted failed_count cid ?st1
                       + int (length (pending_rows cid ?st1))
                     = persisted sent_count cid st + persisted failed_count cid st
                       + int (length (pending_rows cid st))"
    by (simp add: p0 p1 sent failed)
  from IH have A: "persisted sent_count cid (invoke_all es req ?st1)
             + persisted failed_count cid (invoke_all es req ?st1)
             + int (length (pending_rows cid (invoke_all es req ?st1)))
           = persisted sent_count cid ?st1 + persisted failed_count cid ?st1
                       + int (length (pending_rows cid ?st1))"
    by blast
  have cons: "persisted sent_count cid (invoke_all (e # es) req st)
             + persisted failed_count cid (invoke_all (e # es) req st)
             + int (length (pending_rows cid (invoke_all (e # es) req st)))
           = persisted sent_count cid st + persisted failed_count cid st
             + int (length (pending_rows cid st))"
    unfolding invoke_all_Cons using A B by (rule trans)
  have tot: "persisted total_recipients cid (invoke_all (e # es) req st)
               = persisted total_recipients cid st"
    using IH by (simp add: p0 p1 total)
  from each pend cons tot show ?case by blast
qed

text \<open>
  C5, as stated: when the endpoint is invoked in sequence until no pending recipient
  remains, \<open>sent_count + failed_count = total_recipients\<close> in the end. It fails on the
  campaign that has lost a recipient row: two invocations leave nothing pending, with one
  recipient sent and one failed against a \<open>total_recipients\<close> of three.
\<close>

theorem counters_stale_total_counterexample:
  "pending_rows ''k1'' (invoke_all [later, later] post shrunk_store) = []
   \<and> \<not> (persisted sent_count ''k1'' (invoke_all [later, later] post shrunk_store)
          + persisted failed_count ''k1'' (invoke_all [later, later] post shrunk_store)
        = persisted total_recipients ''k1'' (invoke_all [later, later] post shrunk_store))"
  by code_simp

text \<open>
  C5, amended: let the endpoint be invoked in sequence, with a request that carries both
  fields, on a store with distinct recipient ids, SMTP settings and the campaign, each
  time with a successful query for the recipients, and often enough for the pending
  recipients at 50 per invocation; and let the store it starts from satisfy
  \<open>sent_count + failed_count + number of pending recipients = total_recipients\<close>. Then
  every invocation adds to \<open>sent_count\<close> and \<open>failed_count\<close> exactly the numbers \<open>sent\<close> and
  \<open>failed\<close> it reports, no pending recipient remains in the end, and then
  \<open>sent_count + failed_count = total_recipients\<close>.
\<close>

theorem counters_additive:
  assumes "req_method req \<noteq> ''OPTIONS''"
    and "json req = Parsed (Some cid) (Some pw)" and "cid \<noteq> []" and "pw \<noteq> []"
    and "single (filter (\<lambda>row. camp_id row = cid) (campaigns st)) = Some c"
    and "smtp_settings st \<noteq> []"
    and "distinct (map recipient_id (campaign_recipients st))"
    and "\<forall>e \<in> set es. \<not> recipients_error e"
    and "or_zero (sent_count c) + or_zero (failed_count c) + int (length (pending_rows cid st))
           = or_zero (total_recipients c)"
    and "length (pending_rows cid st) \<le> 50 * length es"
  shows "(\<forall>k < length es.
            persisted sent_count cid (invoke_all (take (Suc k) es) req st)
              = persisted sent_count cid (invoke_all (take k es) req st)
                + reported ''sent'' (fst (serve (es ! k) req (invoke_all (take k es) req st)))
            \<and> persisted failed_count cid (invoke_all (take (Suc k) es) req st)
              = persisted failed_count cid (invoke_all (take k es) req st)
                + reported ''failed'' (fst (serve (es ! k) req (invoke_all (take k es) req st))))
         \<and> pending_rows cid (invoke_all es req st) = []
         \<and> persisted sent_count cid (invoke_all es req st)
             + persisted failed_count cid (invoke_all es req st)
           = persisted total_recipients cid (invoke_all es req st)"
proof -
  note all = invoke_all_counts [OF assms(1-8)]
  from all assms(10) have none: "pending_rows cid (invoke_all es req st) = []"
    by simp
  have start: "persisted column cid st = or_zero (column c)" for column
    using assms(5) by (rule persisted_single)
  from all have "persisted sent_count cid (invoke_all es req st)
             + persisted failed_count cid (invoke_all es req st)
             + int (length (pending_rows cid (invoke_all es req st)))
           = persisted sent_count cid st + persisted failed_count cid st
             + int (length (pending_rows cid st))"
    and "persisted total_recipients cid (invoke_all es req st) = persisted total_recipients cid st"
    by blast+
  with none assms(9) have "persisted sent_count cid (invoke_all es req st)
             + persisted failed_count cid (invoke_all es req st)
           = persisted total_recipients cid (invoke_all es req st)"
    by (simp add: start)
  with all none show ?thesis by blast
qed


theorem counters_additive_witness:
  "persisted sent_count ''k1'' resumed_store = 1
   \<and> reported ''sent'' (fst (serve later post resumed_store)) = 1
   \<and> reported ''failed'' (fst (serve later post resumed_store)) = 1
   \<and> persisted sent_count ''k1'' (invoke_all [later] post resumed_store)
     = persisted sent_count ''k1'' resumed_store
       + reported ''sent'' (fst (serve later post resumed_store))
   \<and> persisted failed_count ''k1'' (invoke_all [later] post resumed_store)
     = persisted failed_count ''k1'' resumed_store
       + reported ''failed'' (fst (serve later post resumed_store))
   \<and> pending_rows ''k1'' (invoke_all [later, later] post resumed_store) = []
   \<and> persisted sent_count ''k1'' (invoke_all [later, later] post resumed_store)
       + persisted failed_count ''k1'' (invoke_all [later, later] post resumed_store)
     = persisted total_recipients ''k1'' (invoke_all [later, later] post resumed_store)"
proof -
  let ?c = "(fresh_campaign Sending)
              \<lparr>sent_count := Some 1, started_at := Some ''2026-01-07T09:00:00.000Z''\<rparr>"
  have req: "req_method post \<noteq> ''OPTIONS''" "json post = Parsed (Some ''k1'') (Some ''secret'')"
    "''k1'' \<noteq> []" "''secret'' \<noteq> []"
    by (simp_all add: post_def)
  have c: "single (filter (\<lambda>row. camp_id row = ''k1'') (campaigns resumed_store)) = Some ?c"
    by (simp add: resumed_store_def fresh_campaign_def single_def)
  have ss: "smtp_settings resumed_store \<noteq> []"
    by (simp add: resumed_store_def)
  have oks: "\<forall>e \<in> set [later, later]. \<not> recipients_error e"
    by (simp add: later_def)
  have d: "distinct (map recipient_id (campaign_recipients resumed_store))"
    by (simp add: resumed_store_def pending_row_def sent_row_def)
  have inv: "or_zero (sent_count ?c) + or_zero (failed_count ?c)
               + int (length (pending_rows ''k1'' resumed_store))
             = or_zero (total_recipients ?c)"
    by (simp add: pending_rows_def resumed_store_def pending_row_def sent_row_def
          fresh_campaign_def or_zero_def)
  have enough: "length (pending_rows ''k1'' resumed_store) \<le> 50 * length [later, later]"
    by (simp add: pending_rows_def resumed_store_def pending_row_def sent_row_def)
  note all = counters_additive [OF req c ss d oks inv enough]
  have "0 < length [later, later]" by simp
  from all [THEN conjunct1, rule_format, OF this]
  have first: "persisted sent_count ''k1'' (invoke_all [later] post resumed_store)
     = persisted sent_count ''k1'' resumed_store
       + reported ''sent'' (fst (serve later post resumed_store))
   \<and> persisted failed_count ''k1'' (invoke_all [later] post resumed_store)
     = persisted failed_count ''k1'' resumed_store
       + reported ''failed'' (fst (serve later post resumed_store))"
    by simp
  from all have rest: "pending_rows ''k1'' (invoke_all [later, later] post resumed_store) = []
   \<and> persisted sent_count ''k1'' (invoke_all [later, later] post resumed_store)
       + persisted failed_count ''k1'' (invoke_all [later, later] post resumed_store)
     = persisted total_recipients ''k1'' (invoke_all [later, later] post resumed_store)"
    by (rule conjunct2)
  have start: "persisted sent_count ''k1'' resumed_store = 1"
    by (simp add: persisted_single [OF c])
  have batch: "reported ''sent'' (fst (serve later post resumed_store)) = 1
               \<and> reported ''failed'' (fst (serve later post resumed_store)) = 1"
    by code_simp
  from start batch first rest show ?thesis by (simp only: conj_assoc simp_thms)
qed

section \<open>The renderer on well-formed templates\<close>

lemma GetSubstitution_plain:
  "no_pattern rep \<Longrightarrow> GetSubstitution matched before behind rep = rep"
  by (induction matched before behind rep rule: GetSubstitution.induct) auto

lemma replace_from_skip:
  "\<not> prefix tok (x # xs) \<Longrightarrow> replace_from tok rep pre (x # xs) = x # replace_from tok rep (pre @ [x]) xs"
  by simp

lemma replace_from_plain:
  "plain l \<Longrightarrow>
   replace_from (CHR ''{'' # CHR ''{'' # t) rep pre (l @ rest)
     = l @ replace_from (CHR ''{'' # CHR ''{'' # t) rep (pre @ l) rest"
proof (induction l arbitrary: pre rule: plain.induct)
  case 1
  then show ?case by simp
next
  case (2 x)
  then have "\<not> prefix (CHR ''{'' # CHR ''{'' # t) (x # rest)" by simp
  then show ?case by (simp del: replace_from.simps add: replace_from_skip)
next
  case (3 x y r)
  from "3.prems" have np: "\<not> prefix (CHR ''{'' # CHR ''{'' # t) (x # (y # r) @ rest)"
    and p: "plain (y # r)"
    by auto
  have "replace_from (CHR ''{'' # CHR ''{'' # t) rep pre ((x # y # r) @ rest)
          = x # replace_from (CHR ''{'' # CHR ''{'' # t) rep (pre @ [x]) ((y # r) @ rest)"
    using replace_from_skip [OF np] by simp
  also have "\<dots> = x # (y # r) @ replace_from (CHR ''{'' # CHR ''{'' # t) rep ((pre @ [x]) @ (y # r)) rest"
    by (simp only: "3.IH" [OF p])
  finally show ?case by simp
qed

lemma replace_from_match:
  "tok \<noteq> [] \<Longrightarrow>
   replace_from tok rep pre (tok @ rest)
     = GetSubstitution tok pre rest rep @ replace_from tok rep (pre @ tok) rest"
  by (cases tok) simp_all

lemma no_brace_plain: "CHR ''{'' \<notin> set l \<Longrightarrow> plain l"
  by (induction l rule: plain.induct) auto

lemma name_prefix:
  "CHR ''}'' \<notin> set n \<Longrightarrow> CHR ''}'' \<notin> set m \<Longrightarrow> prefix (n @ CHR ''}'' # a) (m @ CHR ''}'' # b) \<Longrightarrow> n = m"
proof (induction n arbitrary: m)
  case Nil
  then show ?case by (cases m) auto
next
  case (Cons x n)
  then show ?case by (cases m) auto
qed

lemma replace_from_other:
  assumes "n \<noteq> m" and "CHR ''}'' \<notin> set n" and "CHR ''{'' \<notin> set m" and "CHR ''}'' \<notin> set m"
  shows "replace_from (token n) rep pre (token m @ rest)
           = token m @ replace_from (token n) rep (pre @ token m) rest"
proof -
  have no: "\<not> prefix (token n) (token m @ rest)"
    using name_prefix [OF assms(2,4), of "''}''" "''}'' @ rest"] assms(1)
    by (auto simp: token_def)
  have second: "\<not> prefix (token n) (CHR ''{'' # m @ ''}}'' @ rest)"
    using assms(3) by (cases m) (auto simp: token_def)
  have tail: "plain (m @ ''}}'')"
    using assms(3) by (intro no_brace_plain) auto
  have first: "replace_from (token n) rep pre (token m @ rest)
          = CHR ''{'' # replace_from (token n) rep (pre @ ''{'') (CHR ''{'' # m @ ''}}'' @ rest)"
    using replace_from_skip [of "token n" "CHR ''{''" "CHR ''{'' # m @ ''}}'' @ rest" rep pre] no
    by (simp add: token_def)
  have "replace_from (token n) rep (pre @ ''{'') (CHR ''{'' # m @ ''}}'' @ rest)
          = CHR ''{'' # replace_from (token n) rep (pre @ ''{{'') ((m @ ''}}'') @ rest)"
    using replace_from_skip [OF second, of rep "pre @ ''{''"] by simp
  with first have "replace_from (token n) rep pre (token m @ rest)
          = CHR ''{'' # CHR ''{'' # replace_from (token n) rep (pre @ ''{{'') ((m @ ''}}'') @ rest)"
    by simp
  also have "\<dots> = CHR ''{'' # CHR ''{'' # (m @ ''}}'') @ replace_from (token n) rep ((pre @ ''{{'') @ (m @ ''}}'')) rest"
    using replace_from_plain [OF tail, of "n @ ''}}''" rep "pre @ ''{{''" rest]
    by (simp add: token_def)
  finally show ?thesis by (simp add: token_def)
qed

lemma unparse_Nil [simp]: "unparse [] = []"
  by (simp add: unparse_def)

lemma unparse_Cons [simp]: "unparse (p # ps) = piece_text p @ unparse ps"
  by (simp add: unparse_def)

lemma token_braces: "token n = CHR ''{'' # CHR ''{'' # n @ ''}}''"
  by (simp add: token_def)

lemma replace_from_pieces:
  assumes "CHR ''}'' \<notin> set n" and "plain_value rep" and "\<forall>p \<in> set ps. well_formed p"
  shows "replace_from (token n) rep pre (unparse ps) = unparse (map (subst n rep) ps)"
  using assms(3)
proof (induction ps arbitrary: pre)
  case Nil
  then show ?case by simp
next
  case (Cons p ps)
  then have rest: "replace_from (token n) rep before (unparse ps) = unparse (map (subst n rep) ps)"
    for before
    by simp
  show ?case
  proof (cases p)
    case (Lit l)
    with Cons.prems have "plain l" by simp
    from replace_from_plain [OF this, of "n @ ''}}''" rep pre "unparse ps"] Lit rest
    show ?thesis by (simp add: token_braces)
  next
    case (Tok m)
    show ?thesis
    proof (cases "m = n")
      case True
      have "replace_from (token n) rep pre (token n @ unparse ps)
              = GetSubstitution (token n) pre (unparse ps) rep
                @ replace_from (token n) rep (pre @ token n) (unparse ps)"
        by (rule replace_from_match) (simp add: token_def)
      with assms(2) Tok True rest show ?thesis
        by (simp add: GetSubstitution_plain plain_value_def)
    next
      case False
      with Cons.prems Tok assms(1) have "replace_from (token n) rep pre (token m @ unparse ps)
              = token m @ replace_from (token n) rep (pre @ token m) (unparse ps)"
        by (intro replace_from_other) auto
      with Tok False rest show ?thesis by simp
    qed
  qed
qed

lemma well_formed_subst:
  "plain_value rep \<Longrightarrow> well_formed p \<Longrightarrow> well_formed (subst n rep p)"
  by (cases p) (auto simp: plain_value_def)

lemma replace_g_pieces:
  assumes "CHR ''}'' \<notin> set n" and "plain_value rep" and "\<forall>p \<in> set ps. well_formed p"
  shows "replace_g (token n) rep (unparse ps) = unparse (map (subst n rep) ps)"
    and "\<forall>p \<in> set (map (subst n rep) ps). well_formed p"
  using assms by (simp_all add: replace_g_def replace_from_pieces well_formed_subst)

lemma render_piece_subst:
  "piece_text
     (subst ''company'' (or_empty (company c))
       (subst ''email'' (email c)
         (subst ''last_name'' (or_empty (last_name c))
           (subst ''first_name'' (or_empty (first_name c)) p))))
   = render_piece c p"
  by (cases p) (simp_all add: field_value_def)


text \<open>
  Where the code does what the specification describes: on every template made of plain
  literal text and tokens with brace-free names, for every contact whose four field
  values are plain, every occurrence of each of the four supported tokens is replaced by
  the value of the field, the empty string for a null field, and every other token is
  left verbatim. The two examples of the specification are instances.
\<close>

lemma render_well_formed:
  assumes "\<forall>p \<in> set ps. well_formed p"
    and "plain_value (or_empty (first_name c))"
    and "plain_value (or_empty (last_name c))"
    and "plain_value (email c)"
    and "plain_value (or_empty (company c))"
  shows "replacePlaceholders (unparse ps) c = render_spec c ps"
proof -
  let ?p1 = "map (subst ''first_name'' (or_empty (first_name c))) ps"
  let ?p2 = "map (subst ''last_name'' (or_empty (last_name c))) ?p1"
  let ?p3 = "map (subst ''email'' (email c)) ?p2"
  let ?p4 = "map (subst ''company'' (or_empty (company c))) ?p3"
  have tok: "''{{first_name}}'' = token ''first_name''" "''{{last_name}}'' = token ''last_name''"
    "''{{email}}'' = token ''email''" "''{{company}}'' = token ''company''"
    by (simp_all add: token_def)
  note s1 = replace_g_pieces [OF _ assms(2) assms(1), of "''first_name''"]
  note s2 = replace_g_pieces [OF _ assms(3) s1(2), of "''last_name''"]
  note s3 = replace_g_pieces [OF _ assms(4) s2(2), of "''email''"]
  note s4 = replace_g_pieces [OF _ assms(5) s3(2), of "''company''"]
  have "replacePlaceholders (unparse ps) c = unparse ?p4"
    unfolding replacePlaceholders_def tok
    using s1(1) s2(1) s3(1) s4(1) by simp
  also have "\<dots> = render_spec c ps"
    by (simp add: unparse_def render_spec_def comp_def render_piece_subst)
  finally show ?thesis .
qed


lemma render_examples:
  "replacePlaceholders ''Hi {{first_name}} {{first_name}}!'' ann = ''Hi Ann Ann!''
   \<and> replacePlaceholders ''Hi {{first_name}}'' (ann\<lparr>first_name := None\<rparr>) = ''Hi ''
   \<and> replacePlaceholders ''Hi {{nickname}} of {{company}}'' ann = ''Hi {{nickname}} of ''"
proof -
  have v: "plain_value (or_empty (first_name ann))" "plain_value (or_empty (last_name ann))"
    "plain_value (email ann)" "plain_value (or_empty (company ann))"
    "plain_value (or_empty (first_name (ann\<lparr>first_name := None\<rparr>)))"
    "plain_value (or_empty (last_name (ann\<lparr>first_name := None\<rparr>)))"
    "plain_value (email (ann\<lparr>first_name := None\<rparr>))"
    "plain_value (or_empty (company (ann\<lparr>first_name := None\<rparr>)))"
    by (simp_all add: plain_value_def ann_def or_empty_def)
  have w1: "\<forall>p \<in> set [Lit ''Hi '', Tok ''first_name'', Lit '' '', Tok ''first_name'', Lit ''!'']. well_formed p"
    and w2: "\<forall>p \<in> set [Lit ''Hi '', Tok ''first_name'']. well_formed p"
    and w3: "\<forall>p \<in> set [Lit ''Hi '', Tok ''nickname'', Lit '' of '', Tok ''company'']. well_formed p"
    by simp_all
  from render_well_formed [OF w1 v(1-4)]
  have a: "replacePlaceholders ''Hi {{first_name}} {{first_name}}!'' ann = ''Hi Ann Ann!''"
    by (simp add: token_def render_spec_def field_value_def ann_def or_empty_def)
  from render_well_formed [OF w2 v(5-8)]
  have b: "replacePlaceholders ''Hi {{first_name}}'' (ann\<lparr>first_name := None\<rparr>) = ''Hi ''"
    by (simp add: token_def render_spec_def field_value_def ann_def or_empty_def)
  from render_well_formed [OF w3 v(1-4)]
  have c: "replacePlaceholders ''Hi {{nickname}} of {{company}}'' ann = ''Hi {{nickname}} of ''"
    by (simp add: token_def render_spec_def field_value_def ann_def or_empty_def)
  from a b c show ?thesis by blast
qed

section \<open>Patterns in the values of a contact\<close>

text \<open>
  C8. The send path is to put the value of the contact's field, as it is, in place of
  every occurrence of a supported token. The code hands the value to \<^verbatim>\<open>replace\<close> as the
  replacement string, in which \<^verbatim>\<open>$$\<close>, \<^verbatim>\<open>$&\<close> and the like are patterns: a company
  \<^verbatim>\<open>Cash $$ Carry\<close> reaches the recipient as \<^verbatim>\<open>Cash $ Carry\<close>, and for a first name
  \<^verbatim>\<open>$&\<close> the token comes back as it was.
\<close>

theorem dollar_pattern_expanded:
  "render_spec (ann\<lparr>company := Some ''Cash $$ Carry''\<rparr>) [Lit ''Dear '', Tok ''company'']
     = ''Dear Cash $$ Carry''
   \<and> replacePlaceholders ''Dear {{company}}'' (ann\<lparr>company := Some ''Cash $$ Carry''\<rparr>)
     = ''Dear Cash $ Carry''
   \<and> render_spec (ann\<lparr>first_name := Some ''$&''\<rparr>) [Lit ''Hi '', Tok ''first_name''] = ''Hi $&''
   \<and> replacePlaceholders ''Hi {{first_name}}'' (ann\<lparr>first_name := Some ''$&''\<rparr>)
     = ''Hi {{first_name}}''"
  by code_simp

end
